theory Spec2Isabelle
  imports Complex_Main "HOL-Library.Log_Nat"
begin

section \<open>Python values used by the event API and the serialisation utilities\<close>

text \<open>
  A Python \<open>str\<close> is a sequence of Unicode code points and a \<open>bytes\<close> object a
  sequence of integers below 256. Both are lists of naturals here; \<open>len\<close> is
  \<open>length\<close>, truthiness of a string is non-emptiness. Strings that are only ever
  compared or concatenated (event names, messages, field names) are Isabelle strings.
\<close>

type_synonym str = "nat list"
type_synonym bytes = "nat list"

text \<open>
  The exceptions that the modelled code raises, catches or lets through.
  \<open>HTTPException\<close> carries the status code and the optional detail.
\<close>

datatype exn =
    HTTPException nat "string option"
  | RequestValidationError
  | BinasciiError
  | UnicodeDecodeError
  | UnicodeEncodeError
  | ValueError
  | TypeError
  | InvalidTokenError
  | InvalidEventCountParameters string
  | WebSocketDisconnect
  | ConnectionClosed
  | IOError
  | OverflowError

definition HTTP_403_FORBIDDEN :: nat where
  "HTTP_403_FORBIDDEN = 403"


definition HTTP_422_UNPROCESSABLE_ENTITY :: nat where
  "HTTP_422_UNPROCESSABLE_ENTITY = 422"

definition HTTP_204_NO_CONTENT :: nat where
  "HTTP_204_NO_CONTENT = 204"

text \<open>A string literal of the source, as code points.\<close>

definition py_str :: "string \<Rightarrow> str" where
  "py_str s = map of_char s"

subsection \<open>\<open>str.encode()\<close> and \<open>bytes.decode()\<close>: strict UTF-8\<close>

text \<open>
  \<open>str.encode()\<close> with the default codec: one to four bytes per code point; a
  surrogate code point (U+D800 to U+DFFF) raises \<open>UnicodeEncodeError\<close>.
\<close>

definition utf8_encode_cp :: "nat \<Rightarrow> exn + bytes" where
  "utf8_encode_cp c =
     (if c < 0x80 then Inr [c]
      else if c < 0x800 then Inr [0xC0 + c div 64, 0x80 + c mod 64]
      else if c < 0x10000 then
        (if 0xD800 \<le> c \<and> c \<le> 0xDFFF then Inl UnicodeEncodeError
         else Inr [0xE0 + c div 4096, 0x80 + c div 64 mod 64, 0x80 + c mod 64])
      else if c < 0x110000 then
        Inr [0xF0 + c div 262144, 0x80 + c div 4096 mod 64,
             0x80 + c div 64 mod 64, 0x80 + c mod 64]
      else Inl UnicodeEncodeError)"

fun str_encode :: "str \<Rightarrow> exn + bytes" where
  "str_encode [] = Inr []"
| "str_encode (c # cs) =
     (case utf8_encode_cp c of
        Inl e \<Rightarrow> Inl e
      | Inr b \<Rightarrow> (case str_encode cs of Inl e \<Rightarrow> Inl e | Inr bs \<Rightarrow> Inr (b @ bs)))"

definition is_cont :: "nat \<Rightarrow> bool" where
  "is_cont b = (0x80 \<le> b \<and> b \<le> 0xBF)"

definition cons_cp :: "nat \<Rightarrow> exn + str \<Rightarrow> exn + str" where
  "cons_cp c r = (case r of Inl e \<Rightarrow> Inl e | Inr cs \<Rightarrow> Inr (c # cs))"

text \<open>
  \<open>bytes.decode()\<close> with the default codec and strict error handling: overlong
  forms, surrogates, code points above U+10FFFF, stray continuation bytes and truncated
  sequences raise \<open>UnicodeDecodeError\<close>.
\<close>

fun bytes_decode :: "bytes \<Rightarrow> exn + str" where
  "bytes_decode [] = Inr []"
| "bytes_decode (b # bs) =
     (if b < 0x80 then cons_cp b (bytes_decode bs)
      else if 0xC2 \<le> b \<and> b \<le> 0xDF then
        (case bs of
           c1 # r \<Rightarrow>
             if is_cont c1 then cons_cp ((b - 0xC0) * 64 + (c1 - 0x80)) (bytes_decode r)
             else Inl UnicodeDecodeError
         | _ \<Rightarrow> Inl UnicodeDecodeError)
      else if 0xE0 \<le> b \<and> b \<le> 0xEF then
        (case bs of
           c1 # c2 # r \<Rightarrow>
             if is_cont c1 \<and> is_cont c2 \<and> (b = 0xE0 \<longrightarrow> 0xA0 \<le> c1)
                \<and> (b = 0xED \<longrightarrow> c1 \<le> 0x9F)
             then cons_cp ((b - 0xE0) * 4096 + (c1 - 0x80) * 64 + (c2 - 0x80)) (bytes_decode r)
             else Inl UnicodeDecodeError
         | _ \<Rightarrow> Inl UnicodeDecodeError)
      else if 0xF0 \<le> b \<and> b \<le> 0xF4 then
        (case bs of
           c1 # c2 # c3 # r \<Rightarrow>
             if is_cont c1 \<and> is_cont c2 \<and> is_cont c3 \<and> (b = 0xF0 \<longrightarrow> 0x90 \<le> c1)
                \<and> (b = 0xF4 \<longrightarrow> c1 \<le> 0x8F)
             then cons_cp ((b - 0xF0) * 262144 + (c1 - 0x80) * 4096 + (c2 - 0x80) * 64
                           + (c3 - 0x80)) (bytes_decode r)
             else Inl UnicodeDecodeError
         | _ \<Rightarrow> Inl UnicodeDecodeError)
      else Inl UnicodeDecodeError)"

subsection \<open>\<open>base64.b64encode\<close> and \<open>base64.b64decode\<close>\<close>

text \<open>The standard alphabet: the character of a six-bit value, and its inverse table.\<close>

definition table_b2a_base64 :: "nat \<Rightarrow> nat" where
  "table_b2a_base64 v =
     (if v < 26 then 65 + v
      else if v < 52 then 71 + v
      else if v < 62 then v - 4
      else if v = 62 then 43
      else 47)"

definition table_a2b_base64 :: "nat \<Rightarrow> nat option" where
  "table_a2b_base64 c =
     (if 65 \<le> c \<and> c \<le> 90 then Some (c - 65)
      else if 97 \<le> c \<and> c \<le> 122 then Some (c - 71)
      else if 48 \<le> c \<and> c \<le> 57 then Some (c + 4)
      else if c = 43 then Some 62
      else if c = 47 then Some 63
      else None)"

definition BASE64_PAD :: nat where
  "BASE64_PAD = 61"

text \<open>
  \<open>b64encode\<close>: three bytes become four characters; a final group of one or two
  bytes is padded with \<open>=\<close>.
\<close>

fun b64encode :: "bytes \<Rightarrow> bytes" where
  "b64encode [] = []"
| "b64encode [a] =
     [table_b2a_base64 (a div 4), table_b2a_base64 (a mod 4 * 16), BASE64_PAD, BASE64_PAD]"
| "b64encode [a, b] =
     [table_b2a_base64 (a div 4), table_b2a_base64 (a mod 4 * 16 + b div 16),
      table_b2a_base64 (b mod 16 * 4), BASE64_PAD]"
| "b64encode (a # b # c # bs) =
     [table_b2a_base64 (a div 4), table_b2a_base64 (a mod 4 * 16 + b div 16),
      table_b2a_base64 (b mod 16 * 4 + c div 64), table_b2a_base64 (c mod 64)]
     @ b64encode bs"

text \<open>
  \<open>b64decode\<close> without validation, as the standard library's decoder runs it: a
  loop over the input carrying the position in the current group of four
  (\<open>quad_pos\<close>), the bits left over from the previous character (\<open>leftchar\<close>) and
  the count of padding characters seen (\<open>pads\<close>). Characters outside the alphabet are
  skipped; a complete padding ends the decoding; input that ends inside a group raises
  \<open>binascii.Error\<close>.
\<close>

fun a2b_base64 :: "nat \<Rightarrow> nat \<Rightarrow> nat \<Rightarrow> bytes \<Rightarrow> bytes \<Rightarrow> exn + bytes" where
  "a2b_base64 quad_pos leftchar pads [] bin_data =
     (if quad_pos \<noteq> 0 then Inl BinasciiError else Inr bin_data)"
| "a2b_base64 quad_pos leftchar pads (this_ch # rest) bin_data =
     (if this_ch = BASE64_PAD then
        (if quad_pos \<ge> 2 \<and> quad_pos + (pads + 1) \<ge> 4 then Inr bin_data
         else a2b_base64 quad_pos leftchar (if quad_pos \<ge> 2 then pads + 1 else pads) rest bin_data)
      else
        (case table_a2b_base64 this_ch of
           None \<Rightarrow> a2b_base64 quad_pos leftchar pads rest bin_data
         | Some v \<Rightarrow>
             if quad_pos = 0 then a2b_base64 (Suc 0) v 0 rest bin_data
             else if quad_pos = Suc 0 then
               a2b_base64 2 (v mod 16) 0 rest (bin_data @ [leftchar * 4 mod 256 + v div 16])
             else if quad_pos = 2 then
               a2b_base64 3 (v mod 4) 0 rest (bin_data @ [leftchar * 16 mod 256 + v div 4])
             else
               a2b_base64 0 0 0 rest (bin_data @ [leftchar * 64 mod 256 + v])))"

definition b64decode :: "bytes \<Rightarrow> exn + bytes" where
  "b64decode s = a2b_base64 0 0 0 s []"


section \<open>The event API (\<open>prefect/server/api/events.py\<close>)\<close>

text \<open>
  The request gives the base URL of the service; a result page carries the events, the
  total count and the link to the next page.
\<close>

record request =
  base_url :: str

record 'e EventPage =
  events :: "'e list"
  total :: nat
  next_page :: "str option"

text \<open>
  How the web framework answers an exception that leaves an endpoint: an
  \<open>HTTPException\<close> with its own status code, a request that fails validation with 422,
  anything else with 500.
\<close>

fun response_status :: "exn \<Rightarrow> nat" where
  "response_status (HTTPException code detail) = code"
| "response_status RequestValidationError = 422"
| "response_status e = 500"

subsection \<open>Page tokens\<close>

text \<open>
  The expression inside the \<open>try\<close> block of \<open>verified_page_token\<close>:
  \<open>base64.b64decode(page_token.encode()).decode()\<close>. Any exception it raises is
  answered with \<open>HTTPException(403)\<close>, and so is an empty result.
\<close>

definition page_token_decoded :: "str \<Rightarrow> exn + str" where
  "page_token_decoded page_token =
     (case str_encode page_token of
        Inl e \<Rightarrow> Inl e
      | Inr raw \<Rightarrow>
          (case b64decode raw of
             Inl e \<Rightarrow> Inl e
           | Inr decoded \<Rightarrow> bytes_decode decoded))"

definition verified_page_token :: "str \<Rightarrow> exn + str" where
  "verified_page_token page_token =
     (case page_token_decoded page_token of
        Inl e \<Rightarrow> Inl (HTTPException HTTP_403_FORBIDDEN None)
      | Inr token \<Rightarrow>
          if token = [] then Inl (HTTPException HTTP_403_FORBIDDEN None)
          else Inr token)"

text \<open>
  A string without surrogates is a sequence of Unicode scalar values; these are the
  strings that \<open>str.encode()\<close> accepts.
\<close>

definition is_scalar_value :: "nat \<Rightarrow> bool" where
  "is_scalar_value c = (c < 0x110000 \<and> (c < 0xD800 \<or> 0xDFFF < c))"

definition generate_next_page_link :: "request \<Rightarrow> str option \<Rightarrow> exn + str option" where
  "generate_next_page_link req page_token =
     (case page_token of
        None \<Rightarrow> Inr None
      | Some token \<Rightarrow>
          if token = [] then Inr None
          else
            (case str_encode token of
               Inl e \<Rightarrow> Inl e
             | Inr raw \<Rightarrow>
                 (case bytes_decode (b64encode raw) of
                    Inl e \<Rightarrow> Inl e
                  | Inr encoded \<Rightarrow>
                      Inr (Some (base_url req @ py_str ''api/events/filter/next''
                                 @ py_str ''?page-token='' @ encoded)))))"

subsection \<open>Querying events\<close>

text \<open>
  The body parameter \<open>limit\<close> is declared with the default \<open>INTERACTIVE_PAGE_SIZE\<close> and
  the bounds \<open>ge=0\<close>, \<open>le=INTERACTIVE_PAGE_SIZE\<close>: an omitted limit takes the default, a
  given one outside the bounds fails validation before the endpoint body runs. The
  constant is a parameter of the model.
\<close>

definition limit_param :: "int \<Rightarrow> int option \<Rightarrow> exn + int" where
  "limit_param INTERACTIVE_PAGE_SIZE limit =
     (case limit of
        None \<Rightarrow> Inr INTERACTIVE_PAGE_SIZE
      | Some n \<Rightarrow>
          if 0 \<le> n \<and> n \<le> INTERACTIVE_PAGE_SIZE then Inr n else Inl RequestValidationError)"

text \<open>
  \<open>read_events\<close>: the storage query is a parameter; the first component of the result
  lists the page sizes the endpoint asked the storage for.
\<close>

definition read_events ::
  "int \<Rightarrow> ('f \<Rightarrow> int \<Rightarrow> exn + 'e list \<times> nat \<times> str option) \<Rightarrow> 'f \<Rightarrow>
   request \<Rightarrow> 'f option \<Rightarrow> int option \<Rightarrow> int list \<times> (exn + 'e EventPage)" where
  "read_events INTERACTIVE_PAGE_SIZE query_events EventFilter req filter_arg limit =
     (case limit_param INTERACTIVE_PAGE_SIZE limit of
        Inl e \<Rightarrow> ([], Inl e)
      | Inr page_size \<Rightarrow>
          (let flt = (case filter_arg of None \<Rightarrow> EventFilter | Some f \<Rightarrow> f) in
           ([page_size],
            (case query_events flt page_size of
               Inl e \<Rightarrow> Inl e
             | Inr (evs, tot, next_token) \<Rightarrow>
                 (case generate_next_page_link req next_token of
                    Inl e \<Rightarrow> Inl e
                  | Inr link \<Rightarrow> Inr \<lparr>events = evs, total = tot, next_page = link\<rparr>)))))"


subsection \<open>Counting events\<close>

text \<open>
  A Python \<open>float\<close>: a finite value (a real number; comparisons of finite floats are
  exact), an infinity or NaN. \<open>float_ge\<close> is \<open>>=\<close> against a finite bound; every
  comparison with NaN is false.
\<close>

datatype pyfloat = Finite real | PosInf | NegInf | NaN

fun float_ge :: "pyfloat \<Rightarrow> real \<Rightarrow> bool" where
  "float_ge (Finite x) bound = (bound \<le> x)"
| "float_ge PosInf bound = True"
| "float_ge NegInf bound = False"
| "float_ge NaN bound = False"

text \<open>
  \<open>handle_event_count_request\<close>: the storage's \<open>count_events\<close> is a parameter; its
  \<open>InvalidEventCountParameters\<close> becomes an \<open>HTTPException\<close> with status 422 and the
  exception's message as detail; any other exception passes through.
\<close>

definition handle_event_count_request ::
  "('f \<Rightarrow> 'c \<Rightarrow> 'u \<Rightarrow> pyfloat \<Rightarrow> exn + 'r list) \<Rightarrow> 'f \<Rightarrow> 'c \<Rightarrow> 'u \<Rightarrow> pyfloat \<Rightarrow> exn + 'r list" where
  "handle_event_count_request count_events flt countable time_unit time_interval =
     (case count_events flt countable time_unit time_interval of
        Inl e \<Rightarrow>
          (case e of
             InvalidEventCountParameters message \<Rightarrow>
               Inl (HTTPException HTTP_422_UNPROCESSABLE_ENTITY (Some message))
           | _ \<Rightarrow> Inl e)
      | Inr counts \<Rightarrow> Inr counts)"

text \<open>
  The body parameter \<open>time_interval\<close> is declared with the default \<open>1.0\<close> and the bound
  \<open>ge=0.01\<close>; \<open>time_unit\<close> defaults to \<open>TimeUnit.day\<close>, a parameter of the model. (The
  double nearest to 0.01 lies above 1/100 and the next double below it lies below 1/100,
  so a double is at least the one exactly when it is at least the other.)
\<close>

definition time_interval_param :: "pyfloat option \<Rightarrow> exn + pyfloat" where
  "time_interval_param time_interval =
     (case time_interval of
        None \<Rightarrow> Inr (Finite 1)
      | Some t \<Rightarrow> if float_ge t (1 / 100) then Inr t else Inl RequestValidationError)"

text \<open>
  \<open>count_account_events\<close>; the first component of the result lists the time intervals
  handed to the storage.
\<close>

definition count_account_events ::
  "('f \<Rightarrow> 'c \<Rightarrow> 'u \<Rightarrow> pyfloat \<Rightarrow> exn + 'r list) \<Rightarrow> 'u \<Rightarrow> 'f \<Rightarrow> 'c \<Rightarrow> 'u option \<Rightarrow>
   pyfloat option \<Rightarrow> pyfloat list \<times> (exn + 'r list)" where
  "count_account_events count_events TimeUnit_day flt countable time_unit time_interval =
     (case time_interval_param time_interval of
        Inl e \<Rightarrow> ([], Inl e)
      | Inr interval \<Rightarrow>
          ([interval],
           handle_event_count_request count_events flt countable
             (case time_unit of None \<Rightarrow> TimeUnit_day | Some u \<Rightarrow> u) interval))"

subsection \<open>Receiving events\<close>

text \<open>
  Modelled from the spec: \<open>messaging.publish\<close> and the event publisher of
  \<open>messaging.create_event_publisher\<close> are not part of the sources. The spec has the
  ingestion endpoints publish each event upon receipt and keep the order of a batch; the
  model is the sequence of published events, to which \<open>publish_event\<close> appends one event
  and \<open>publish\<close> each event of a list in turn. \<open>Event.receive\<close>, which marks an event
  as received, is a parameter.
\<close>

definition publish_event :: "'r \<Rightarrow> 'r list \<Rightarrow> 'r list" where
  "publish_event received published = published @ [received]"

fun publish :: "'r list \<Rightarrow> 'r list \<Rightarrow> 'r list" where
  "publish [] published = published"
| "publish (received # rest) published = publish rest (publish_event received published)"

record response =
  status_code :: nat
  content :: "str option"

text \<open>
  \<open>create_events\<close> is registered with \<open>status_code=204\<close> and the plain \<open>Response\<close>
  class and returns nothing: the answer has status 204 and no body.
\<close>

definition create_events :: "('e \<Rightarrow> 'r) \<Rightarrow> 'e list \<Rightarrow> 'r list \<Rightarrow> response \<times> 'r list" where
  "create_events receive evs published =
     (\<lparr>status_code = HTTP_204_NO_CONTENT, content = None\<rparr>,
      publish (map receive evs) published)"





section \<open>Action outcomes (\<open>prefect.server.events.actions\<close>)\<close>

text \<open>
  Modelled from the spec: the action execution framework (\<open>Action.act\<close>,
  \<open>Action.succeed\<close>, \<open>TriggeredAction\<close>, the events client) is not part of the
  sources; only the test of \<open>SuspendFlowRun\<close> is. The spec has \<open>succeed\<close> emit an
  execution-result event with the name \<open><namespace>.automation.action.executed\<close>, the
  primary target resource with the role \<open>target\<close> as its only related resource, and
  the payload \<open>action_index\<close>, \<open>action_type\<close>, \<open>invocation\<close> (the id of the
  \<open>TriggeredAction\<close>) and \<open>status_code\<close>. A resource is its labels; the events
  client is the sequence of emitted events. The test gives the type name
  \<open>suspend-flow-run\<close> and the status 201 of a state change that the orchestration
  API accepted.
\<close>

type_synonym resource = "(string \<times> string) list"

datatype payload_value = IntValue int | StrValue string

record Event =
  event :: string
  related :: "resource list"
  payload :: "(string \<times> payload_value) list"

record Action =
  action_type :: string

definition SuspendFlowRun :: Action where
  "SuspendFlowRun = \<lparr>action_type = ''suspend-flow-run''\<rparr>"

record TriggeredAction =
  id :: string
  action_index :: nat
  action :: Action
  triggering_resource_id :: string

text \<open>
  What a completed \<open>act\<close> leaves for \<open>succeed\<close>: the resource acted upon and the
  status code of the orchestration API's answer.
\<close>

record act_result =
  target_resource_id :: string
  result_status_code :: nat

datatype state_response = StateAccepted | StateRejected string

text \<open>
  \<open>act\<close> of the actions that change the state of a flow run: the request goes to the
  orchestrated system (a parameter); an accepted state change answers 201, a rejected
  one makes the action fail with the reason.
\<close>

definition act :: "(Action \<Rightarrow> string \<Rightarrow> state_response) \<Rightarrow> TriggeredAction \<Rightarrow> string + act_result" where
  "act orchestration triggered_action =
     (case orchestration (action triggered_action) (triggering_resource_id triggered_action) of
        StateAccepted \<Rightarrow>
          Inr \<lparr>target_resource_id = triggering_resource_id triggered_action,
               result_status_code = 201\<rparr>
      | StateRejected reason \<Rightarrow> Inl reason)"

definition succeed :: "string \<Rightarrow> TriggeredAction \<Rightarrow> act_result \<Rightarrow> Event list \<Rightarrow> Event list" where
  "succeed namespace triggered_action acted emitted =
     emitted @
     [\<lparr>event = namespace @ ''.automation.action.executed'',
       related = [[(''prefect.resource.id'', target_resource_id acted),
                   (''prefect.resource.role'', ''target'')]],
       payload = [(''action_index'', IntValue (int (action_index triggered_action))),
                  (''action_type'', StrValue (action_type (action triggered_action))),
                  (''invocation'', StrValue (id triggered_action)),
                  (''status_code'', IntValue (int (result_status_code acted)))]\<rparr>]"

section \<open>Serialisation (\<open>prefect/utilities/serialize.py\<close>)\<close>

text \<open>
  \<open>AESCipher\<close> takes text and bytes alike; a value of either kind is tagged with its
  type, and a \<open>str\<close> never equals a \<open>bytes\<close> object.
\<close>

datatype pyseq = Str str | Bytes bytes


definition is_bytes :: "bytes \<Rightarrow> bool" where
  "is_bytes b = list_all (\<lambda>x. x < 256) b"

definition AESCipher_bs :: nat where
  "AESCipher_bs = 32"

definition AES_block_size :: nat where
  "AES_block_size = 16"

text \<open>
  \<open>_pad\<close>: \<open>pad_chr = chr(bs - len(s) % bs)\<close>, encoded when \<open>s\<close> is bytes, repeated
  \<open>bs - len(s) % bs\<close> times after \<open>s\<close>.
\<close>

definition AESCipher_pad :: "pyseq \<Rightarrow> exn + pyseq" where
  "AESCipher_pad s =
     (case s of
        Str cs \<Rightarrow>
          (let pad_chr = [AESCipher_bs - length cs mod AESCipher_bs] in
           Inr (Str (cs @ concat (replicate (AESCipher_bs - length cs mod AESCipher_bs) pad_chr))))
      | Bytes b \<Rightarrow>
          (case str_encode [AESCipher_bs - length b mod AESCipher_bs] of
             Inl e \<Rightarrow> Inl e
           | Inr pad_chr \<Rightarrow>
               Inr (Bytes (b @ concat (replicate (AESCipher_bs - length b mod AESCipher_bs) pad_chr)))))"

text \<open>
  \<open>_unpad\<close>: \<open>s[:-ord(s[len(s) - 1:])]\<close>. The slice \<open>s[len(s) - 1:]\<close> is the last
  element, or empty when \<open>s\<close> is; \<open>ord\<close> of anything but one element raises
  \<open>TypeError\<close>; \<open>s[:-0]\<close> is empty, \<open>s[:-k]\<close> drops the last \<open>k\<close> elements.
\<close>

definition unpad_list :: "nat list \<Rightarrow> exn + nat list" where
  "unpad_list s =
     (case drop (length s - 1) s of
        [k] \<Rightarrow> Inr (if k = 0 then [] else take (length s - k) s)
      | _ \<Rightarrow> Inl TypeError)"

definition AESCipher_unpad :: "pyseq \<Rightarrow> exn + pyseq" where
  "AESCipher_unpad s =
     (case s of
        Str cs \<Rightarrow> (case unpad_list cs of Inl e \<Rightarrow> Inl e | Inr r \<Rightarrow> Inr (Str r))
      | Bytes b \<Rightarrow> (case unpad_list b of Inl e \<Rightarrow> Inl e | Inr r \<Rightarrow> Inr (Bytes r)))"

text \<open>
  The cryptographic library is a parameter: the SHA-256 digest and AES in CBC mode under
  a key and an initialisation vector. What the cipher does with text instead of bytes is
  the library's matter, so its \<open>encrypt\<close> takes a value of either kind.
\<close>

record crypto =
  sha256_digest :: "bytes \<Rightarrow> bytes"
  cbc_encrypt :: "bytes \<Rightarrow> bytes \<Rightarrow> pyseq \<Rightarrow> exn + bytes"
  cbc_decrypt :: "bytes \<Rightarrow> bytes \<Rightarrow> bytes \<Rightarrow> exn + bytes"

text \<open>
  The library decrypts what it encrypted: on bytes of a whole number of blocks, under
  any key and vector, \<open>encrypt\<close> returns bytes from which \<open>decrypt\<close> returns the
  input.
\<close>

definition cipher_inverts :: "crypto \<Rightarrow> bool" where
  "cipher_inverts lib =
     (\<forall>k iv pt. is_bytes pt \<and> length pt mod AES_block_size = 0 \<longrightarrow>
        (\<exists>ct. cbc_encrypt lib k iv (Bytes pt) = Inr ct \<and> is_bytes ct
              \<and> cbc_decrypt lib k iv ct = Inr pt))"

text \<open>\<open>AESCipher.__init__\<close>: the key of the cipher is the digest of the encoded key text.\<close>

definition AESCipher_key :: "crypto \<Rightarrow> str \<Rightarrow> exn + bytes" where
  "AESCipher_key lib key =
     (case str_encode key of Inl e \<Rightarrow> Inl e | Inr k \<Rightarrow> Inr (sha256_digest lib k))"

text \<open>
  \<open>b64decode\<close> accepts bytes and ASCII text (\<open>ValueError\<close> for other text).
\<close>

definition b64decode_any :: "pyseq \<Rightarrow> exn + bytes" where
  "b64decode_any s =
     (case s of
        Bytes b \<Rightarrow> b64decode b
      | Str cs \<Rightarrow> if list_all (\<lambda>c. c < 128) cs then b64decode cs else Inl ValueError)"

text \<open>
  \<open>encrypt\<close>; the bytes read from \<open>Random\<close> for the initialisation vector are the
  argument \<open>iv\<close>.
\<close>

definition encrypt :: "crypto \<Rightarrow> str \<Rightarrow> bytes \<Rightarrow> pyseq \<Rightarrow> exn + pyseq" where
  "encrypt lib key iv raw =
     (case AESCipher_key lib key of
        Inl e \<Rightarrow> Inl e
      | Inr k \<Rightarrow>
          (case AESCipher_pad raw of
             Inl e \<Rightarrow> Inl e
           | Inr padded \<Rightarrow>
               (case cbc_encrypt lib k iv padded of
                  Inl e \<Rightarrow> Inl e
                | Inr ct \<Rightarrow> Inr (Bytes (b64encode (iv @ ct))))))"

definition decrypt :: "crypto \<Rightarrow> str \<Rightarrow> pyseq \<Rightarrow> exn + pyseq" where
  "decrypt lib key enc =
     (case AESCipher_key lib key of
        Inl e \<Rightarrow> Inl e
      | Inr k \<Rightarrow>
          (case b64decode_any enc of
             Inl e \<Rightarrow> Inl e
           | Inr data \<Rightarrow>
               (case cbc_decrypt lib k (take AES_block_size data) (drop AES_block_size data) of
                  Inl e \<Rightarrow> Inl e
                | Inr pt \<Rightarrow>
                    (case AESCipher_unpad (Bytes pt) of
                       Inl e \<Rightarrow> Inl e
                     | Inr (Str cs) \<Rightarrow> Inl TypeError
                     | Inr (Bytes b) \<Rightarrow>
                         (case bytes_decode b of Inl e \<Rightarrow> Inl e | Inr t \<Rightarrow> Inr (Str t))))))"




section \<open>Model subclasses (\<open>prefect/orion/utilities/schemas.py\<close>)\<close>

text \<open>
  A pydantic model class, as far as \<open>subclass_model\<close> looks at it: its name and its
  \<open>__fields__\<close>, a dictionary from field names to fields in the order of declaration.
\<close>

record 'f model =
  model_name :: string
  model_fields :: "(string \<times> 'f) list"

text \<open>
  \<open>create_model(name, __base__=base)\<close> of pydantic: as the docstring of
  \<open>subclass_model\<close> describes, the new class takes its inherited fields from the
  \<open>__fields__\<close> of its parent at the time it is created.
\<close>

definition create_model :: "string \<Rightarrow> 'f model \<Rightarrow> 'f model" where
  "create_model new_name base = \<lparr>model_name = new_name, model_fields = model_fields base\<rparr>"

text \<open>Python's \<open>x or default\<close> for an optional list: \<open>None\<close> and the empty list are falsy.\<close>

definition list_or :: "'a list option \<Rightarrow> 'a list \<Rightarrow> 'a list" where
  "list_or x dflt = (case x of None \<Rightarrow> dflt | Some xs \<Rightarrow> if xs = [] then dflt else xs)"

text \<open>
  \<open>subclass_model\<close> returns the new class; the second component of the result is the
  base class as the call leaves it.
\<close>

definition subclass_model ::
  "'f model \<Rightarrow> string option \<Rightarrow> string list option \<Rightarrow> string list option \<Rightarrow> 'f model \<times> 'f model" where
  "subclass_model base name incl excl =
     (let original_fields = model_fields base;
          field_names = set (list_or incl (map fst (model_fields base))) - set (list_or excl []);
          base1 = base\<lparr>model_fields := filter (\<lambda>(k, v). k \<in> field_names) (model_fields base)\<rparr>;
          new_cls = create_model (list_or name (model_name base)) base1;
          base2 = base1\<lparr>model_fields := original_fields\<rparr>
      in (new_cls, base2))"

section \<open>JSON hooks for time values (\<open>patch_json\<close> in \<open>prefect/utilities/serialize.py\<close>)\<close>

subsection \<open>Double precision\<close>

text \<open>
  The finite double-precision values of this section lie between a microsecond and the
  seconds of a few million years, well inside the normal range, so a double is a real
  number with a significand of 53 bits and the operations round their exact result to
  the nearest such number, ties to the even significand. \<open>ulp x\<close> is the distance
  between the doubles around a positive \<open>x\<close>: \<open>floorlog 2 n\<close> is the bit length of
  \<open>n\<close>, so the binary exponent of \<open>x\<close> is the bit length of its integer part less
  one when \<open>x\<close> is at least 1, and the negated bit length of \<open>ceiling (1 / x) - 1\<close>
  below 1.
\<close>

definition round_half_even :: "real \<Rightarrow> int" where
  "round_half_even y =
     (if y - of_int \<lfloor>y\<rfloor> < 1 / 2 then \<lfloor>y\<rfloor>
      else if 1 / 2 < y - of_int \<lfloor>y\<rfloor> then \<lfloor>y\<rfloor> + 1
      else if even \<lfloor>y\<rfloor> then \<lfloor>y\<rfloor> else \<lfloor>y\<rfloor> + 1)"

definition ulp :: "real \<Rightarrow> real" where
  "ulp x =
     (if 1 \<le> x then 2 ^ floorlog 2 (nat \<lfloor>x\<rfloor>) / 2 ^ 53
      else 1 / 2 ^ (52 + floorlog 2 (nat (\<lceil>1 / x\<rceil> - 1))))"

definition round_double :: "real \<Rightarrow> real" where
  "round_double x =
     (if x = 0 then 0
      else if 0 < x then of_int (round_half_even (x / ulp x)) * ulp x
      else - (of_int (round_half_even (- x / ulp (- x))) * ulp (- x)))"

subsection \<open>\<open>datetime.timedelta\<close>\<close>

text \<open>
  A \<open>timedelta\<close> is a whole number of microseconds (its days, seconds and microseconds
  are the normal form of that number, and equality compares them), between
  \<open>timedelta.min\<close> and \<open>timedelta.max\<close>.
\<close>

definition timedelta_min :: int where
  "timedelta_min = - 999999999 * 86400 * 1000000"

definition timedelta_max :: int where
  "timedelta_max = 999999999 * 86400 * 1000000 + 86399 * 1000000 + 999999"

text \<open>
  \<open>total_seconds()\<close>: the microseconds divided by \<open>10**6\<close>, a true division of
  integers, which is correctly rounded.
\<close>

definition total_seconds :: "int \<Rightarrow> real" where
  "total_seconds us = round_double (of_int us / 1000000)"

text \<open>
  \<open>timedelta(seconds=f)\<close> for a float \<open>f\<close>: \<open>modf\<close> splits \<open>f\<close> into its integral
  part (towards zero) and its fraction, exactly; the fraction times \<open>1e6\<close> is a float
  product; the microseconds are the integral part times \<open>10**6\<close> plus that product
  rounded to an integer, ties to even. A result out of range raises \<open>OverflowError\<close>.
\<close>

definition modf_int :: "real \<Rightarrow> int" where
  "modf_int f = (if 0 \<le> f then \<lfloor>f\<rfloor> else \<lceil>f\<rceil>)"

definition seconds_to_microseconds :: "real \<Rightarrow> int" where
  "seconds_to_microseconds f =
     (let intpart = modf_int f;
          fracpart = f - of_int intpart;
          usdouble = round_double (1000000 * fracpart)
      in intpart * 1000000 + round_half_even usdouble)"

definition timedelta_in_range :: "int \<Rightarrow> exn + int" where
  "timedelta_in_range us =
     (if timedelta_min \<le> us \<and> us \<le> timedelta_max then Inr us else Inl OverflowError)"

subsection \<open>The hooks\<close>

text \<open>
  The Python values that the hooks handle: strings, numbers, dictionaries, datetimes (of
  a type that is a parameter, as \<open>isoformat\<close> and \<open>dateutil.parser.parse\<close> are) and
  timedeltas. A JSON document holds strings, numbers and objects; writing a document as
  text and reading it back gives the same document (the text of a float is its shortest
  representation that reads back as the same float).
\<close>

datatype 'd pyval =
    PyStr string
  | PyInt int
  | PyFloat real
  | PyDict "(string \<times> 'd pyval) list"
  | PyDatetime 'd
  | PyTimedelta int

datatype json = JString string | JInt int | JFloat real | JObject "(string \<times> json) list"

text \<open>
  \<open>encode_json\<close>, the \<open>default\<close> of the encoder, is called on a value that JSON does
  not know: a datetime becomes a dictionary with the key \<open>__datetime__\<close>, a timedelta one
  with the key \<open>__timedelta__\<close>. (Neither has a \<open>__json__\<close> method; there is no other
  value in this model that JSON does not know.)
\<close>

fun encode_json :: "('d \<Rightarrow> string) \<Rightarrow> 'd pyval \<Rightarrow> exn + 'd pyval" where
  "encode_json isoformat (PyDatetime d) = Inr (PyDict [(''__datetime__'', PyStr (isoformat d))])"
| "encode_json isoformat (PyTimedelta us) =
     Inr (PyDict [(''__timedelta__'', PyFloat (total_seconds us))])"
| "encode_json isoformat obj = Inl TypeError"

text \<open>\<open>json.dumps\<close>: the document of a value, with \<open>default\<close> applied where needed.\<close>

fun json_dumps :: "('d \<Rightarrow> string) \<Rightarrow> 'd pyval \<Rightarrow> exn + json"
  and dumps_items :: "('d \<Rightarrow> string) \<Rightarrow> (string \<times> 'd pyval) list \<Rightarrow> exn + (string \<times> json) list" where
  "json_dumps isoformat (PyStr s) = Inr (JString s)"
| "json_dumps isoformat (PyInt i) = Inr (JInt i)"
| "json_dumps isoformat (PyFloat f) = Inr (JFloat f)"
| "json_dumps isoformat (PyDict items) =
     (case dumps_items isoformat items of Inl e \<Rightarrow> Inl e | Inr members \<Rightarrow> Inr (JObject members))"
| "json_dumps isoformat (PyDatetime d) = Inr (JObject [(''__datetime__'', JString (isoformat d))])"
| "json_dumps isoformat (PyTimedelta us) =
     Inr (JObject [(''__timedelta__'', JFloat (total_seconds us))])"
| "dumps_items isoformat [] = Inr []"
| "dumps_items isoformat ((k, v) # items) =
     (case json_dumps isoformat v of
        Inl e \<Rightarrow> Inl e
      | Inr j \<Rightarrow>
          (case dumps_items isoformat items of
             Inl e \<Rightarrow> Inl e
           | Inr members \<Rightarrow> Inr ((k, j) # members)))"

text \<open>
  \<open>_default_object_hook\<close> is applied to every dictionary read: one with the key
  \<open>__datetime__\<close> becomes what \<open>dateutil.parser.parse\<close> makes of its value, one
  with the key \<open>__timedelta__\<close> a \<open>timedelta\<close> of that many seconds. The hooks for
  functions and Prefect objects are the parameter \<open>other_hooks\<close>.
\<close>

definition timedelta_of :: "'d pyval \<Rightarrow> exn + 'd pyval" where
  "timedelta_of v =
     (case v of
        PyFloat f \<Rightarrow>
          (case timedelta_in_range (seconds_to_microseconds f) of
             Inl e \<Rightarrow> Inl e | Inr us \<Rightarrow> Inr (PyTimedelta us))
      | PyInt i \<Rightarrow>
          (case timedelta_in_range (i * 1000000) of
             Inl e \<Rightarrow> Inl e | Inr us \<Rightarrow> Inr (PyTimedelta us))
      | _ \<Rightarrow> Inl TypeError)"

definition default_object_hook ::
  "(string \<Rightarrow> exn + 'd) \<Rightarrow> ((string \<times> 'd pyval) list \<Rightarrow> exn + 'd pyval) \<Rightarrow>
   (string \<times> 'd pyval) list \<Rightarrow> exn + 'd pyval" where
  "default_object_hook parse other_hooks dct =
     (case map_of dct ''__datetime__'' of
        Some v \<Rightarrow>
          (case v of
             PyStr s \<Rightarrow> (case parse s of Inl e \<Rightarrow> Inl e | Inr d \<Rightarrow> Inr (PyDatetime d))
           | _ \<Rightarrow> Inl TypeError)
      | None \<Rightarrow>
          (case map_of dct ''__timedelta__'' of
             Some v \<Rightarrow> timedelta_of v
           | None \<Rightarrow> other_hooks dct))"

text \<open>\<open>json.loads\<close>: the value of a document, with the hook applied to each object.\<close>

fun json_loads ::
  "(string \<Rightarrow> exn + 'd) \<Rightarrow> ((string \<times> 'd pyval) list \<Rightarrow> exn + 'd pyval) \<Rightarrow> json \<Rightarrow> exn + 'd pyval"
  and loads_members ::
  "(string \<Rightarrow> exn + 'd) \<Rightarrow> ((string \<times> 'd pyval) list \<Rightarrow> exn + 'd pyval) \<Rightarrow>
   (string \<times> json) list \<Rightarrow> exn + (string \<times> 'd pyval) list" where
  "json_loads parse other_hooks (JString s) = Inr (PyStr s)"
| "json_loads parse other_hooks (JInt i) = Inr (PyInt i)"
| "json_loads parse other_hooks (JFloat f) = Inr (PyFloat f)"
| "json_loads parse other_hooks (JObject members) =
     (case loads_members parse other_hooks members of
        Inl e \<Rightarrow> Inl e
      | Inr dct \<Rightarrow> default_object_hook parse other_hooks dct)"
| "loads_members parse other_hooks [] = Inr []"
| "loads_members parse other_hooks ((k, j) # members) =
     (case json_loads parse other_hooks j of
        Inl e \<Rightarrow> Inl e
      | Inr v \<Rightarrow>
          (case loads_members parse other_hooks members of
             Inl e \<Rightarrow> Inl e
           | Inr dct \<Rightarrow> Inr ((k, v) # dct)))"

section \<open>Verification\<close>

subsection \<open>The codecs\<close>

lemma cons_cp_Inr: "cons_cp c (Inr cs) = Inr (c # cs)"
  by (simp add: cons_cp_def)

lemma dec1: "c < 0x80 \<Longrightarrow> bytes_decode (c # rest) = cons_cp c (bytes_decode rest)"
  by simp

lemma dec2_digits:
  "2 \<le> q \<Longrightarrow> q \<le> 31 \<Longrightarrow> r \<le> 63 \<Longrightarrow>
   bytes_decode ((0xC0 + q) # (0x80 + r) # rest) = cons_cp (q * 64 + r) (bytes_decode rest)"
  by (simp add: is_cont_def)

lemma dec3_digits:
  "q2 \<le> 15 \<Longrightarrow> r2 \<le> 63 \<Longrightarrow> r1 \<le> 63 \<Longrightarrow> (q2 = 0 \<Longrightarrow> 32 \<le> r2) \<Longrightarrow> (q2 = 13 \<Longrightarrow> r2 \<le> 31) \<Longrightarrow>
   bytes_decode ((0xE0 + q2) # (0x80 + r2) # (0x80 + r1) # rest)
     = cons_cp (q2 * 4096 + r2 * 64 + r1) (bytes_decode rest)"
  by (simp add: is_cont_def)

lemma dec4_digits:
  "q3 \<le> 4 \<Longrightarrow> r3 \<le> 63 \<Longrightarrow> r2 \<le> 63 \<Longrightarrow> r1 \<le> 63 \<Longrightarrow> (q3 = 0 \<Longrightarrow> 16 \<le> r3) \<Longrightarrow> (q3 = 4 \<Longrightarrow> r3 \<le> 15) \<Longrightarrow>
   bytes_decode ((0xF0 + q3) # (0x80 + r3) # (0x80 + r2) # (0x80 + r1) # rest)
     = cons_cp (q3 * 262144 + r3 * 4096 + r2 * 64 + r1) (bytes_decode rest)"
  by (simp add: is_cont_def)

lemma digits64:
  fixes c :: nat
  obtains q r where "c = q * 64 + r" "r \<le> 63" "c div 64 = q" "c mod 64 = r"
proof
  show "c = (c div 64) * 64 + c mod 64" by simp
  have "c mod 64 < 64" by simp
  then show "c mod 64 \<le> 63" by linarith
qed simp_all

lemma dec2:
  assumes "0x80 \<le> c" "c < 0x800"
  shows "bytes_decode ((0xC0 + c div 64) # (0x80 + c mod 64) # rest) = cons_cp c (bytes_decode rest)"
proof -
  obtain q r where c: "c = q * 64 + r" "r \<le> 63" "c div 64 = q" "c mod 64 = r"
    by (rule digits64)
  have "2 \<le> q" "q \<le> 31" using assms c(1,2) by linarith+
  from dec2_digits[OF this c(2), of rest] show ?thesis
    by (simp only: c(3,4) c(1)[symmetric])
qed

lemma dec3:
  assumes "0x800 \<le> c" "c < 0x10000" "\<not> (0xD800 \<le> c \<and> c \<le> 0xDFFF)"
  shows "bytes_decode ((0xE0 + c div 4096) # (0x80 + c div 64 mod 64) # (0x80 + c mod 64) # rest)
         = cons_cp c (bytes_decode rest)"
proof -
  obtain q r1 where c: "c = q * 64 + r1" "r1 \<le> 63" "c div 64 = q" "c mod 64 = r1"
    by (rule digits64)
  obtain q2 r2 where q: "q = q2 * 64 + r2" "r2 \<le> 63" "q div 64 = q2" "q mod 64 = r2"
    by (rule digits64)
  have "c div 4096 = c div 64 div 64" by (simp add: div_mult2_eq[symmetric])
  then have d: "c div 4096 = q2" by (simp add: c(3) q(3))
  have e: "c = q2 * 4096 + r2 * 64 + r1" using c(1) q(1) by simp
  have b: "q2 \<le> 15" "q2 = 0 \<Longrightarrow> 32 \<le> r2" "q2 = 13 \<Longrightarrow> r2 \<le> 31"
    using assms c(2) q(2) unfolding e by linarith+
  from dec3_digits[OF b(1) q(2) c(2) b(2,3), of rest] show ?thesis
    by (simp only: d c(3,4) q(4) e[symmetric])
qed

lemma dec4:
  assumes "0x10000 \<le> c" "c < 0x110000"
  shows "bytes_decode ((0xF0 + c div 262144) # (0x80 + c div 4096 mod 64) # (0x80 + c div 64 mod 64)
            # (0x80 + c mod 64) # rest)
         = cons_cp c (bytes_decode rest)"
proof -
  obtain q r1 where c: "c = q * 64 + r1" "r1 \<le> 63" "c div 64 = q" "c mod 64 = r1"
    by (rule digits64)
  obtain q2 r2 where q: "q = q2 * 64 + r2" "r2 \<le> 63" "q div 64 = q2" "q mod 64 = r2"
    by (rule digits64)
  obtain q3 r3 where q2: "q2 = q3 * 64 + r3" "r3 \<le> 63" "q2 div 64 = q3" "q2 mod 64 = r3"
    by (rule digits64)
  have "c div 4096 = c div 64 div 64" by (simp add: div_mult2_eq[symmetric])
  then have d: "c div 4096 = q2" by (simp add: c(3) q(3))
  have "c div 262144 = c div 4096 div 64" by (simp add: div_mult2_eq[symmetric])
  then have d3: "c div 262144 = q3" by (simp add: d q2(3))
  have e: "c = q3 * 262144 + r3 * 4096 + r2 * 64 + r1" using c(1) q(1) q2(1) by simp
  have b: "q3 \<le> 4" "q3 = 0 \<Longrightarrow> 16 \<le> r3" "q3 = 4 \<Longrightarrow> r3 \<le> 15"
    using assms c(2) q(2) q2(2) unfolding e by linarith+
  from dec4_digits[OF b(1) q2(2) q(2) c(2) b(2,3), of rest] show ?thesis
    by (simp only: d d3 c(3,4) q(4) q2(4) e[symmetric])
qed

lemma utf8_cp_roundtrip:
  "utf8_encode_cp c = Inr bs \<Longrightarrow> bytes_decode (bs @ rest) = cons_cp c (bytes_decode rest)"
  unfolding utf8_encode_cp_def
  using dec1[of c rest] dec2[of c rest] dec3[of c rest] dec4[of c rest]
  by (auto split: if_splits simp del: bytes_decode.simps)

lemma str_encode_decode:
  "str_encode t = Inr bs \<Longrightarrow> bytes_decode bs = Inr t"
proof (induction t arbitrary: bs)
  case Nil
  then show ?case by simp
next
  case (Cons c cs)
  then obtain b r where b: "utf8_encode_cp c = Inr b" and r: "str_encode cs = Inr r" and bs: "bs = b @ r"
    by (auto split: sum.splits)
  from Cons.IH[OF r] utf8_cp_roundtrip[OF b, of r] show ?case
    by (simp add: bs cons_cp_Inr del: bytes_decode.simps)
qed

lemma table_roundtrip: "v < 64 \<Longrightarrow> table_a2b_base64 (table_b2a_base64 v) = Some v"
  by (auto simp: table_a2b_base64_def table_b2a_base64_def)

lemma table_not_pad: "v < 64 \<Longrightarrow> table_b2a_base64 v \<noteq> BASE64_PAD"
  by (auto simp: BASE64_PAD_def table_b2a_base64_def)

lemma table_ascii: "v < 64 \<Longrightarrow> table_b2a_base64 v < 128"
  by (auto simp: table_b2a_base64_def)

lemma a2b_step0:
  "v < 64 \<Longrightarrow> a2b_base64 0 l p (table_b2a_base64 v # rest) out = a2b_base64 (Suc 0) v 0 rest out"
  by (simp add: table_roundtrip table_not_pad)

lemma a2b_step1:
  "v < 64 \<Longrightarrow> a2b_base64 (Suc 0) l p (table_b2a_base64 v # rest) out
     = a2b_base64 2 (v mod 16) 0 rest (out @ [l * 4 mod 256 + v div 16])"
  by (simp add: table_roundtrip table_not_pad)

lemma a2b_step2:
  "v < 64 \<Longrightarrow> a2b_base64 2 l p (table_b2a_base64 v # rest) out
     = a2b_base64 3 (v mod 4) 0 rest (out @ [l * 16 mod 256 + v div 4])"
  by (simp add: table_roundtrip table_not_pad)

lemma a2b_step3:
  "v < 64 \<Longrightarrow> a2b_base64 3 l p (table_b2a_base64 v # rest) out
     = a2b_base64 0 0 0 rest (out @ [l * 64 mod 256 + v])"
  by (simp add: table_roundtrip table_not_pad)

lemma digits:
  fixes n k :: nat
  assumes "0 < k"
  obtains q r where "n = q * k + r" "r < k" "n div k = q" "n mod k = r"
proof
  show "n = (n div k) * k + n mod k" by simp
  show "n mod k < k" using assms by simp
qed simp_all

lemma hi_lo:
  fixes k :: nat
  assumes "r < k"
  shows "(q * k + r) div k = q" "(q * k + r) mod k = r"
  using assms by simp_all

lemma sextets:
  fixes a b c :: nat
  assumes "a < 256" "b < 256" "c < 256"
  shows "a div 4 < 64" "a mod 4 * 16 + b div 16 < 64" "b mod 16 * 4 + c div 64 < 64" "c mod 64 < 64"
proof -
  obtain a1 a0 where a: "a = a1 * 4 + a0" "a0 < 4" "a div 4 = a1" "a mod 4 = a0"
    by (rule digits[where n=a and k=4]) simp
  obtain b1 b0 where b: "b = b1 * 16 + b0" "b0 < 16" "b div 16 = b1" "b mod 16 = b0"
    by (rule digits[where n=b and k=16]) simp
  obtain c1 c0 where c: "c = c1 * 64 + c0" "c0 < 64" "c div 64 = c1" "c mod 64 = c0"
    by (rule digits[where n=c and k=64]) simp
  show "a div 4 < 64" using assms(1) a(1,2) unfolding a(3) by linarith
  show "a mod 4 * 16 + b div 16 < 64" using assms(2) a(2) b(1,2) unfolding a(4) b(3) by linarith
  show "b mod 16 * 4 + c div 64 < 64" using assms(3) b(2) c(1,2) unfolding b(4) c(3) by linarith
  show "c mod 64 < 64" by simp
qed

lemma byte1:
  fixes a b :: nat
  assumes "a < 256" "b < 256"
  shows "a div 4 * 4 mod 256 + (a mod 4 * 16 + b div 16) div 16 = a"
proof -
  obtain a1 a0 where a: "a = a1 * 4 + a0" "a0 < 4" "a div 4 = a1" "a mod 4 = a0"
    by (rule digits[where n=a and k=4]) simp
  obtain b1 b0 where b: "b = b1 * 16 + b0" "b0 < 16" "b div 16 = b1" "b mod 16 = b0"
    by (rule digits[where n=b and k=16]) simp
  have b1: "b1 < 16" using assms(2) b(1) by linarith
  have "a1 * 4 < 256" using assms(1) a(1) by linarith
  then have "a1 * 4 mod 256 = a1 * 4" by simp
  moreover have "(a0 * 16 + b1) div 16 = a0" using b1 by (rule hi_lo)
  ultimately show ?thesis unfolding a(3,4) b(3) using a(1) by simp
qed

lemma byte2:
  fixes a b c :: nat
  assumes "b < 256" "c < 256"
  shows "(a mod 4 * 16 + b div 16) mod 16 * 16 mod 256 + (b mod 16 * 4 + c div 64) div 4 = b"
proof -
  obtain b1 b0 where b: "b = b1 * 16 + b0" "b0 < 16" "b div 16 = b1" "b mod 16 = b0"
    by (rule digits[where n=b and k=16]) simp
  obtain c1 c0 where c: "c = c1 * 64 + c0" "c0 < 64" "c div 64 = c1" "c mod 64 = c0"
    by (rule digits[where n=c and k=64]) simp
  have b1: "b1 < 16" using assms(1) b(1) by linarith
  have c1: "c1 < 4" using assms(2) c(1) by linarith
  have l: "(a mod 4 * 16 + b1) mod 16 = b1" using b1 by (rule hi_lo)
  have "b1 * 16 < 256" using b1 by linarith
  then have "b1 * 16 mod 256 = b1 * 16" by simp
  moreover have "(b0 * 4 + c1) div 4 = b0" using c1 by (rule hi_lo)
  ultimately show ?thesis unfolding b(3,4) c(3) l using b(1) by simp
qed

lemma byte3:
  fixes b c :: nat
  assumes "c < 256"
  shows "(b mod 16 * 4 + c div 64) mod 4 * 64 mod 256 + c mod 64 = c"
proof -
  obtain c1 c0 where c: "c = c1 * 64 + c0" "c0 < 64" "c div 64 = c1" "c mod 64 = c0"
    by (rule digits[where n=c and k=64]) simp
  have c1: "c1 < 4" using assms c(1) by linarith
  have l: "(b mod 16 * 4 + c1) mod 4 = c1" using c1 by (rule hi_lo)
  have "c1 * 64 < 256" using c1 by linarith
  then have "c1 * 64 mod 256 = c1 * 64" by simp
  then show ?thesis unfolding c(3,4) l using c(1) by simp
qed

lemma byte2_last:
  fixes a b :: nat
  assumes "b < 256"
  shows "(a mod 4 * 16 + b div 16) mod 16 * 16 mod 256 + (b mod 16 * 4) div 4 = b"
  using byte2[of b 0 a] assms by simp

lemma byte1_last:
  fixes a :: nat
  assumes "a < 256"
  shows "a div 4 * 4 mod 256 + (a mod 4 * 16) div 16 = a"
  using byte1[of a 0] assms by simp

lemma a2b_pad2: "a2b_base64 2 l 0 [BASE64_PAD, BASE64_PAD] out = Inr out"
  by simp

lemma a2b_pad3: "a2b_base64 3 l 0 [BASE64_PAD] out = Inr out"
  by simp

lemma b64_roundtrip_aux:
  "\<forall>b\<in>set bs. b < 256 \<Longrightarrow> a2b_base64 0 l p (b64encode bs) out = Inr (out @ bs)"
proof (induction bs arbitrary: l p out rule: b64encode.induct)
  case 1
  then show ?case by simp
next
  case (2 a)
  then have a: "a < 256" by simp
  have s: "a div 4 < 64" "a mod 4 * 16 < 64" using sextets[OF a, of 0 0] by simp_all
  show ?case
    by (simp only: b64encode.simps a2b_step0[OF s(1)] a2b_step1[OF s(2)] byte1_last[OF a]
        a2b_pad2)
next
  case (3 a b)
  then have a: "a < 256" and b: "b < 256" by simp_all
  have s: "a div 4 < 64" "a mod 4 * 16 + b div 16 < 64" "b mod 16 * 4 < 64"
    using sextets[OF a b, of 0] by simp_all
  have "a2b_base64 0 l p (b64encode [a, b]) out = Inr ((out @ [a]) @ [b])"
    by (simp only: b64encode.simps a2b_step0[OF s(1)] a2b_step1[OF s(2)] a2b_step2[OF s(3)]
        byte1[OF a b] byte2_last[OF b] a2b_pad3)
  then show ?case by simp
next
  case (4 a b c bs)
  then have a: "a < 256" and b: "b < 256" and c: "c < 256" and bs: "\<forall>b\<in>set bs. b < 256"
    by simp_all
  note s = sextets[OF a b c]
  have "a2b_base64 0 l p (b64encode (a # b # c # bs)) out
          = a2b_base64 0 0 0 (b64encode bs) (((out @ [a]) @ [b]) @ [c])"
    by (simp only: b64encode.simps append.simps a2b_step0[OF s(1)] a2b_step1[OF s(2)]
        a2b_step2[OF s(3)] a2b_step3[OF s(4)] byte1[OF a b] byte2[OF b c] byte3[OF c])
  then show ?case by (simp add: "4.IH"[OF bs])
qed

lemma b64decode_b64encode:
  "\<forall>b\<in>set bs. b < 256 \<Longrightarrow> b64decode (b64encode bs) = Inr bs"
  by (simp add: b64decode_def b64_roundtrip_aux)

lemma b64encode_ascii:
  "\<forall>b\<in>set bs. b < 256 \<Longrightarrow> \<forall>c\<in>set (b64encode bs). c < 128"
proof (induction bs rule: b64encode.induct)
  case 1
  then show ?case by simp
next
  case (2 a)
  then have a: "a < 256" by simp
  have s: "a div 4 < 64" "a mod 4 * 16 < 64" using sextets[OF a, of 0 0] by simp_all
  show ?case using table_ascii[OF s(1)] table_ascii[OF s(2)] by (simp add: BASE64_PAD_def)
next
  case (3 a b)
  then have a: "a < 256" and b: "b < 256" by simp_all
  have s: "a div 4 < 64" "a mod 4 * 16 + b div 16 < 64" "b mod 16 * 4 < 64"
    using sextets[OF a b, of 0] by simp_all
  show ?case using table_ascii[OF s(1)] table_ascii[OF s(2)] table_ascii[OF s(3)]
    by (simp add: BASE64_PAD_def)
next
  case (4 a b c bs)
  then have a: "a < 256" and b: "b < 256" and c: "c < 256" and bs: "\<forall>b\<in>set bs. b < 256"
    by simp_all
  note s = sextets[OF a b c]
  show ?case
    using table_ascii[OF s(1)] table_ascii[OF s(2)] table_ascii[OF s(3)] table_ascii[OF s(4)]
      "4.IH"[OF bs]
    by simp
qed

lemma ascii_encode: "\<forall>c\<in>set xs. c < 128 \<Longrightarrow> str_encode xs = Inr xs"
  by (induction xs) (simp_all add: utf8_encode_cp_def)

lemma ascii_decode: "\<forall>c\<in>set xs. c < 128 \<Longrightarrow> bytes_decode xs = Inr xs"
  by (induction xs) (simp_all add: cons_cp_def)

lemma utf8_cp_bytes: "utf8_encode_cp c = Inr bs \<Longrightarrow> \<forall>b\<in>set bs. b < 256"
proof -
  assume h: "utf8_encode_cp c = Inr bs"
  have m: "\<And>n. n mod 64 < (64::nat)" by simp
  consider "c < 0x80" | "0x80 \<le> c" "c < 0x800" | "0x800 \<le> c" "c < 0x10000" | "0x10000 \<le> c" "c < 0x110000" | "0x110000 \<le> c"
    by linarith
  then show ?thesis
  proof cases
    case 1
    with h show ?thesis by (auto simp: utf8_encode_cp_def)
  next
    case 2
    then have "c div 64 < 32" by (simp add: less_mult_imp_div_less)
    with 2 h m[of c] show ?thesis by (auto simp: utf8_encode_cp_def)
  next
    case 3
    then have "c div 4096 < 16" by (simp add: less_mult_imp_div_less)
    with 3 h m[of c] m[of "c div 64"] show ?thesis
      by (auto simp: utf8_encode_cp_def split: if_splits)
  next
    case 4
    then have "c div 262144 < 5" by (simp add: less_mult_imp_div_less)
    with 4 h m[of c] m[of "c div 64"] m[of "c div 4096"] show ?thesis
      by (auto simp: utf8_encode_cp_def split: if_splits)
  next
    case 5
    with h show ?thesis by (auto simp: utf8_encode_cp_def)
  qed
qed

lemma str_encode_bytes: "str_encode t = Inr bs \<Longrightarrow> \<forall>b\<in>set bs. b < 256"
proof (induction t arbitrary: bs)
  case Nil
  then show ?case by simp
next
  case (Cons c cs)
  then obtain b r where b: "utf8_encode_cp c = Inr b" and r: "str_encode cs = Inr r" and bs: "bs = b @ r"
    by (auto split: sum.splits)
  from Cons.IH[OF r] utf8_cp_bytes[OF b] show ?case by (auto simp: bs)
qed

lemma scalar_cp_encodable: "is_scalar_value c \<Longrightarrow> \<exists>b. utf8_encode_cp c = Inr b"
  by (auto simp: is_scalar_value_def utf8_encode_cp_def)

lemma scalar_encodable: "list_all is_scalar_value t \<Longrightarrow> \<exists>raw. str_encode t = Inr raw"
proof (induction t)
  case Nil
  then show ?case by simp
next
  case (Cons c cs)
  then obtain r where r: "str_encode cs = Inr r" by auto
  from Cons.prems have "is_scalar_value c" by simp
  then obtain b where "utf8_encode_cp c = Inr b"
    using scalar_cp_encodable by blast
  with r show ?case by simp
qed

subsection \<open>Page tokens\<close>







lemma verified_b64encode:
  assumes "t \<noteq> []" "str_encode t = Inr raw"
  shows "verified_page_token (b64encode raw) = Inr t"
proof -
  have raw: "\<forall>b\<in>set raw. b < 256" using assms(2) by (rule str_encode_bytes)
  have "\<forall>c\<in>set (b64encode raw). c < 128" using raw by (rule b64encode_ascii)
  then have "str_encode (b64encode raw) = Inr (b64encode raw)" by (rule ascii_encode)
  moreover have "b64decode (b64encode raw) = Inr raw" using raw by (rule b64decode_b64encode)
  moreover have "bytes_decode raw = Inr t" using assms(2) by (rule str_encode_decode)
  ultimately show ?thesis using assms(1)
    by (simp add: verified_page_token_def page_token_decoded_def)
qed

lemma link_b64encode:
  assumes "t \<noteq> []" "str_encode t = Inr raw"
  shows "generate_next_page_link req (Some t)
           = Inr (Some (base_url req @ py_str ''api/events/filter/next?page-token='' @ b64encode raw))"
proof -
  have raw: "\<forall>b\<in>set raw. b < 256" using assms(2) by (rule str_encode_bytes)
  have "\<forall>c\<in>set (b64encode raw). c < 128" using raw by (rule b64encode_ascii)
  then have "bytes_decode (b64encode raw) = Inr (b64encode raw)" by (rule ascii_decode)
  then show ?thesis using assms by (simp add: generate_next_page_link_def py_str_def)
qed

text \<open>
  C2, as stated, at a token that \<open>str.encode()\<close> rejects: the lone surrogate U+D800 is
  a non-empty string, and \<open>generate_next_page_link\<close> raises \<open>UnicodeEncodeError\<close>
  instead of returning a link.
\<close>

theorem surrogate_token_counterexample:
  "generate_next_page_link \<lparr>base_url = py_str ''http://x/''\<rparr> (Some [0xD800])
     = Inl UnicodeEncodeError"
  by (simp add: generate_next_page_link_def utf8_encode_cp_def)

text \<open>
  C2, amended. For every non-empty token \<open>t\<close> that \<open>str.encode()\<close> accepts, with
  UTF-8 encoding \<open>raw\<close> (every string of Unicode scalar values has one, by
  \<open>scalar_encodable\<close>), \<open>generate_next_page_link\<close> returns the base URL followed by
  \<open>api/events/filter/next?page-token=\<close> and the base64 text of \<open>raw\<close>, and
  \<open>verified_page_token\<close> applied to that base64 text returns \<open>t\<close>. For an absent
  or empty token no link is returned.
\<close>

theorem page_token_roundtrip:
  "(t \<noteq> [] \<and> str_encode t = Inr raw \<longrightarrow>
      generate_next_page_link req (Some t)
        = Inr (Some (base_url req @ py_str ''api/events/filter/next?page-token='' @ b64encode raw))
      \<and> verified_page_token (b64encode raw) = Inr t)
   \<and> generate_next_page_link req None = Inr None
   \<and> generate_next_page_link req (Some []) = Inr None"
  using verified_b64encode[of t raw] link_b64encode[of t raw req]
  by (simp add: generate_next_page_link_def)

theorem page_token_roundtrip_witness:
  "generate_next_page_link \<lparr>base_url = py_str ''http://x/''\<rparr> (Some (py_str ''a''))
     = Inr (Some (py_str ''http://x/api/events/filter/next?page-token=YQ==''))
   \<and> verified_page_token (py_str ''YQ=='') = Inr (py_str ''a'')"
proof -
  have e: "str_encode (py_str ''a'') = Inr [97]" by (simp add: py_str_def utf8_encode_cp_def)
  have b: "b64encode [97] = py_str ''YQ==''"
    by (simp add: py_str_def table_b2a_base64_def BASE64_PAD_def)
  have n: "py_str ''a'' \<noteq> []" by (simp add: py_str_def)
  let ?r = "\<lparr>base_url = py_str ''http://x/''\<rparr>"
  from page_token_roundtrip[of "py_str ''a''" "[97]" ?r] e n
  have "generate_next_page_link ?r (Some (py_str ''a''))
          = Inr (Some (base_url ?r @ py_str ''api/events/filter/next?page-token='' @ b64encode [97]))
        \<and> verified_page_token (b64encode [97]) = Inr (py_str ''a'')"
    by blast
  then show ?thesis unfolding b by (simp add: py_str_def)
qed

subsection \<open>Querying and counting events\<close>

text \<open>
  C7. A given \<open>limit\<close> below 0 or above \<open>INTERACTIVE_PAGE_SIZE\<close> fails validation and
  the storage is not queried; an omitted limit queries with \<open>INTERACTIVE_PAGE_SIZE\<close>, a
  given one within the bounds with itself; no page size handed to the storage exceeds
  \<open>INTERACTIVE_PAGE_SIZE\<close>.
\<close>

theorem read_events_limit:
  "(\<forall>n. limit = Some n \<and> (n < 0 \<or> INTERACTIVE_PAGE_SIZE < n) \<longrightarrow>
        read_events INTERACTIVE_PAGE_SIZE query_events EventFilter req flt limit
          = ([], Inl RequestValidationError))
   \<and> (limit = None \<longrightarrow>
        fst (read_events INTERACTIVE_PAGE_SIZE query_events EventFilter req flt limit)
          = [INTERACTIVE_PAGE_SIZE])
   \<and> (\<forall>n. limit = Some n \<and> 0 \<le> n \<and> n \<le> INTERACTIVE_PAGE_SIZE \<longrightarrow>
        fst (read_events INTERACTIVE_PAGE_SIZE query_events EventFilter req flt limit) = [n])
   \<and> (\<forall>page_size \<in> set (fst (read_events INTERACTIVE_PAGE_SIZE query_events EventFilter req
                                  flt limit)).
        page_size \<le> INTERACTIVE_PAGE_SIZE \<and> (limit \<noteq> None \<longrightarrow> 0 \<le> page_size))"
  by (auto simp: read_events_def limit_param_def Let_def split: option.splits sum.splits)

theorem read_events_limit_witness:
  "read_events 50 (\<lambda>f n. Inr ([], 0, None) :: exn + unit list \<times> nat \<times> str option) ()
       \<lparr>base_url = []\<rparr> None (Some 51) = ([], Inl RequestValidationError)
   \<and> read_events 50 (\<lambda>f n. Inr ([], 0, None) :: exn + unit list \<times> nat \<times> str option) ()
       \<lparr>base_url = []\<rparr> None (Some (- 1)) = ([], Inl RequestValidationError)
   \<and> fst (read_events 50 (\<lambda>f n. Inr ([], 0, None) :: exn + unit list \<times> nat \<times> str option) ()
       \<lparr>base_url = []\<rparr> None None) = [50]
   \<and> fst (read_events 50 (\<lambda>f n. Inr ([], 0, None) :: exn + unit list \<times> nat \<times> str option) ()
       \<lparr>base_url = []\<rparr> None (Some 10)) = [10]"
proof -
  let ?q = "\<lambda>f n. Inr ([], 0, None) :: exn + unit list \<times> nat \<times> str option"
  let ?r = "\<lparr>base_url = []\<rparr>"
  from read_events_limit[of "Some 51" 50 ?q "()" ?r None]
  have 1: "read_events 50 ?q () ?r None (Some 51) = ([], Inl RequestValidationError)" by simp
  from read_events_limit[of "Some (- 1)" 50 ?q "()" ?r None]
  have 2: "read_events 50 ?q () ?r None (Some (- 1)) = ([], Inl RequestValidationError)" by simp
  from read_events_limit[of None 50 ?q "()" ?r None]
  have 3: "fst (read_events 50 ?q () ?r None None) = [50]" by simp
  from read_events_limit[of "Some 10" 50 ?q "()" ?r None]
  have 4: "fst (read_events 50 ?q () ?r None (Some 10)) = [10]" by simp
  from 1 2 3 4 show ?thesis by blast
qed

text \<open>
  C4. When the storage rejects the parameters of a count with
  \<open>InvalidEventCountParameters\<close>, \<open>handle_event_count_request\<close> and the endpoint answer
  with \<open>HTTPException(422)\<close> carrying the message of that exception; a \<open>time_interval\<close>
  that is not at least 0.01 fails validation (status 422 as well) and the storage is not
  asked.
\<close>

theorem count_events_unprocessable:
  "(count_events flt countable time_unit interval = Inl (InvalidEventCountParameters message) \<longrightarrow>
      handle_event_count_request count_events flt countable time_unit interval
        = Inl (HTTPException HTTP_422_UNPROCESSABLE_ENTITY (Some message))
      \<and> response_status (HTTPException HTTP_422_UNPROCESSABLE_ENTITY (Some message)) = 422)
   \<and> (float_ge interval (1 / 100)
       \<and> count_events flt countable time_unit interval = Inl (InvalidEventCountParameters message) \<longrightarrow>
      count_account_events count_events TimeUnit_day flt countable (Some time_unit) (Some interval)
        = ([interval], Inl (HTTPException HTTP_422_UNPROCESSABLE_ENTITY (Some message))))
   \<and> (\<not> float_ge interval (1 / 100) \<longrightarrow>
      count_account_events count_events TimeUnit_day flt countable unit_arg (Some interval)
        = ([], Inl RequestValidationError)
      \<and> response_status RequestValidationError = 422)"
  by (simp add: handle_event_count_request_def count_account_events_def time_interval_param_def
      HTTP_422_UNPROCESSABLE_ENTITY_def)

theorem count_events_unprocessable_witness:
  "handle_event_count_request
       (\<lambda>f c u t. Inl (InvalidEventCountParameters ''bad'') :: exn + unit list) () () () (Finite 5)
     = Inl (HTTPException HTTP_422_UNPROCESSABLE_ENTITY (Some ''bad''))
   \<and> count_account_events
       (\<lambda>f c u t. Inl (InvalidEventCountParameters ''bad'') :: exn + unit list) () () () (Some ())
       (Some (Finite 5))
     = ([Finite 5], Inl (HTTPException HTTP_422_UNPROCESSABLE_ENTITY (Some ''bad'')))
   \<and> count_account_events
       (\<lambda>f c u t. Inr [] :: exn + unit list) () () () None (Some (Finite 0))
     = ([], Inl RequestValidationError)"
proof -
  let ?bad = "\<lambda>f c u t. Inl (InvalidEventCountParameters ''bad'') :: exn + unit list"
  let ?ok = "\<lambda>(f::unit) (c::unit) (u::unit) (t::pyfloat). Inr [] :: exn + unit list"
  from count_events_unprocessable[of ?bad "()" "()" "()" "Finite 5" "''bad''" "()" None]
  have 1: "handle_event_count_request ?bad () () () (Finite 5)
             = Inl (HTTPException HTTP_422_UNPROCESSABLE_ENTITY (Some ''bad''))"
    and 2: "count_account_events ?bad () () () (Some ()) (Some (Finite 5))
             = ([Finite 5], Inl (HTTPException HTTP_422_UNPROCESSABLE_ENTITY (Some ''bad'')))"
    by simp_all
  from count_events_unprocessable[of ?ok "()" "()" "()" "Finite 0" "''bad''" "()" None]
  have 3: "count_account_events ?ok () () () None (Some (Finite 0))
             = ([], Inl RequestValidationError)"
    by simp
  from 1 2 3 show ?thesis by blast
qed

subsection \<open>Receiving events\<close>

lemma publish_append: "publish evs published = published @ evs"
  by (induction evs arbitrary: published) (simp_all add: publish_event_def)

text \<open>
  C5. \<open>create_events\<close> answers with status 204 and no body and publishes the received
  copy of each event of the batch, once, in the order of the batch, after what was
  published before; for the empty batch nothing is published.
\<close>

theorem create_events_publishes:
  "create_events receive evs published
     = (\<lparr>status_code = HTTP_204_NO_CONTENT, content = None\<rparr>, published @ map receive evs)
   \<and> HTTP_204_NO_CONTENT = 204
   \<and> snd (create_events receive [] published) = published"
  by (simp add: create_events_def publish_append HTTP_204_NO_CONTENT_def)

theorem create_events_publishes_witness:
  "create_events Suc [1, 2, 3] [0]
     = (\<lparr>status_code = 204, content = None\<rparr>, [0, 2, 3, 4])
   \<and> snd (create_events Suc [] [0]) = [0]"
  using create_events_publishes[of Suc "[1, 2, 3]" "[0]"] create_events_publishes[of Suc "[]" "[0]"]
  by simp





subsection \<open>Action outcomes\<close>

text \<open>
  C3. After \<open>act\<close> has completed on a \<open>TriggeredAction\<close>, \<open>succeed\<close> emits exactly
  one event: its name is the namespace followed by \<open>.automation.action.executed\<close>, its
  related resources are the target resource with the role \<open>target\<close>, and its payload
  holds the action index, the action type, the id of the \<open>TriggeredAction\<close> as
  invocation and the status code, which is 201 for \<open>SuspendFlowRun\<close>.
\<close>

theorem succeed_emits_executed:
  "act orchestration triggered_action = Inr acted \<longrightarrow>
     (\<exists>ev. succeed namespace triggered_action acted emitted = emitted @ [ev]
        \<and> event ev = namespace @ ''.automation.action.executed''
        \<and> related ev = [[(''prefect.resource.id'', triggering_resource_id triggered_action),
                          (''prefect.resource.role'', ''target'')]]
        \<and> map_of (payload ev) ''action_index'' = Some (IntValue (int (action_index triggered_action)))
        \<and> map_of (payload ev) ''action_type'' = Some (StrValue (action_type (action triggered_action)))
        \<and> map_of (payload ev) ''invocation'' = Some (StrValue (id triggered_action))
        \<and> map_of (payload ev) ''status_code'' = Some (IntValue 201)
        \<and> (action triggered_action = SuspendFlowRun \<longrightarrow>
             map_of (payload ev) ''action_type'' = Some (StrValue ''suspend-flow-run'')))"
  by (auto simp: act_def succeed_def SuspendFlowRun_def split: state_response.splits)

theorem succeed_emits_executed_witness:
  "succeed ''prefect-cloud''
     \<lparr>id = ''7'', action_index = 0, action = SuspendFlowRun, triggering_resource_id = ''prefect.flow-run.1''\<rparr>
     \<lparr>target_resource_id = ''prefect.flow-run.1'', result_status_code = 201\<rparr> []
   = [\<lparr>event = ''prefect-cloud.automation.action.executed'',
       related = [[(''prefect.resource.id'', ''prefect.flow-run.1''),
                   (''prefect.resource.role'', ''target'')]],
       payload = [(''action_index'', IntValue 0), (''action_type'', StrValue ''suspend-flow-run''),
                  (''invocation'', StrValue ''7''), (''status_code'', IntValue 201)]\<rparr>]"
proof -
  let ?ta = "\<lparr>id = ''7'', action_index = 0, action = SuspendFlowRun,
             triggering_resource_id = ''prefect.flow-run.1''\<rparr>"
  let ?acted = "\<lparr>target_resource_id = ''prefect.flow-run.1'', result_status_code = 201\<rparr>"
  have a: "act (\<lambda>a r. StateAccepted) ?ta = Inr ?acted" by (simp add: act_def)
  from succeed_emits_executed[of "\<lambda>a r. StateAccepted" ?ta ?acted "''prefect-cloud''" "[]"] a
  obtain ev where "succeed ''prefect-cloud'' ?ta ?acted [] = [] @ [ev]" by blast
  then show ?thesis by (simp add: succeed_def SuspendFlowRun_def)
qed

subsection \<open>Model subclasses\<close>

lemma subclass_model_restores:
  "snd (subclass_model base name incl excl) = base"
  by (simp add: subclass_model_def Let_def)

lemma subclass_model_fields:
  "incl \<noteq> Some [] \<Longrightarrow>
   model_fields (fst (subclass_model base name incl excl))
     = filter (\<lambda>(k, v). (case incl of None \<Rightarrow> True | Some names \<Rightarrow> k \<in> set names)
                          \<and> (case excl of None \<Rightarrow> True | Some names \<Rightarrow> k \<notin> set names))
         (model_fields base)"
proof -
  assume incl: "incl \<noteq> Some []"
  have "\<And>k v. (k, v) \<in> set (model_fields base) \<Longrightarrow>
          (k \<in> set (list_or incl (map fst (model_fields base))) - set (list_or excl []))
          = ((case incl of None \<Rightarrow> True | Some names \<Rightarrow> k \<in> set names)
             \<and> (case excl of None \<Rightarrow> True | Some names \<Rightarrow> k \<notin> set names))"
    using incl by (cases incl; cases excl) (force simp: list_or_def)+
  then have "filter (\<lambda>(k, v). k \<in> set (list_or incl (map fst (model_fields base)))
                                   - set (list_or excl [])) (model_fields base)
             = filter (\<lambda>(k, v). (case incl of None \<Rightarrow> True | Some names \<Rightarrow> k \<in> set names)
                          \<and> (case excl of None \<Rightarrow> True | Some names \<Rightarrow> k \<notin> set names))
                 (model_fields base)"
    by (intro filter_cong refl) auto
  then show ?thesis by (simp add: subclass_model_def Let_def create_model_def)
qed

text \<open>
  C9 at \<open>include=[]\<close>: the class \<open>Parent\<close> of the docstring with its fields \<open>x\<close> and
  \<open>y\<close>. The base class is left as it was, but the subclass has both fields, not the
  fields of \<open>Parent\<close> restricted to the empty \<open>include\<close>.
\<close>

theorem subclass_model_empty_include:
  "subclass_model \<lparr>model_name = ''Parent'', model_fields = [(''x'', 1 :: int), (''y'', 2)]\<rparr>
     (Some ''Child'') (Some []) None
   = (\<lparr>model_name = ''Child'', model_fields = [(''x'', 1), (''y'', 2)]\<rparr>,
      \<lparr>model_name = ''Parent'', model_fields = [(''x'', 1), (''y'', 2)]\<rparr>)"
  by (simp add: subclass_model_def Let_def create_model_def list_or_def)

subsection \<open>Serialisation\<close>

lemma pad_amount: "1 \<le> AESCipher_bs - n mod AESCipher_bs" "AESCipher_bs - n mod AESCipher_bs \<le> 32"
  by (simp_all add: AESCipher_bs_def Suc_leI)

lemma pad_chr_bytes: "n \<le> 32 \<Longrightarrow> str_encode [n] = Inr [n]"
  by (simp add: utf8_encode_cp_def)

lemma concat_replicate_single: "concat (replicate n [x]) = replicate n x"
  by (induction n) simp_all


lemma AESCipher_pad_Bytes:
  "AESCipher_pad (Bytes b) = Inr (Bytes (b @ replicate (32 - length b mod 32) (32 - length b mod 32)))"
  using pad_chr_bytes[of "32 - length b mod 32"]
  by (simp add: AESCipher_pad_def AESCipher_bs_def concat_replicate_single)

lemma unpad_list_replicate:
  "1 \<le> n \<Longrightarrow> unpad_list (s @ replicate n n) = Inr s"
proof -
  assume n: "1 \<le> n"
  then obtain m where m: "n = Suc m" by (cases n) auto
  have e: "s @ replicate n n = (s @ replicate m n) @ [n]"
    unfolding m by (simp add: replicate_append_same)
  have "drop (length (s @ replicate n n) - 1) (s @ replicate n n) = [n]"
    unfolding e by simp
  moreover have "take (length (s @ replicate n n) - n) (s @ replicate n n) = s"
    by simp
  ultimately show ?thesis using n by (simp add: unpad_list_def del: length_append)
qed

lemma padded_length: "length (xs @ replicate (32 - length xs mod 32) y) mod 32 = 0"
proof -
  obtain q r where l: "length xs = q * 32 + r" and r: "r < 32" and m: "length xs mod 32 = r"
    by (rule digits[where n="length xs" and k=32]) simp_all
  have len: "length (xs @ replicate (32 - length xs mod 32) y) = length xs + (32 - r)"
    by (simp add: m)
  have "length xs + (32 - r) = (q + 1) * 32" using r l by simp
  then show ?thesis unfolding len by simp
qed

lemma is_bytes_iff: "is_bytes b = (\<forall>x\<in>set b. x < 256)"
  by (simp add: is_bytes_def list_all_iff)

lemma ascii_iff: "list_all (\<lambda>c. c < 128) cs = (\<forall>c\<in>set cs. c < (128::nat))"
  by (simp add: list_all_iff)


lemma decrypt_encrypt_bytes:
  assumes lib: "cipher_inverts lib"
    and iv: "is_bytes iv" "length iv = AES_block_size"
    and key: "str_encode key = Inr kb"
    and b: "is_bytes b"
  shows "\<exists>enc. encrypt lib key iv (Bytes b) = Inr (Bytes enc) \<and> list_all (\<lambda>c. c < 128) enc
           \<and> decrypt lib key (Bytes enc)
               = (case bytes_decode b of Inl e \<Rightarrow> Inl e | Inr t \<Rightarrow> Inr (Str t))"
proof -
  let ?n = "32 - length b mod 32"
  let ?padded = "b @ replicate ?n ?n"
  let ?k = "sha256_digest lib kb"
  have n: "1 \<le> ?n" by (simp add: Suc_leI)
  have pb: "is_bytes ?padded" using b by (auto simp: is_bytes_iff)
  have "length ?padded mod 32 = 0" by (rule padded_length)
  then have "32 dvd length ?padded" by (simp add: dvd_eq_mod_eq_0 del: length_append)
  then have "16 dvd length ?padded" by (rule dvd_trans[rotated]) simp
  then have pl: "length ?padded mod AES_block_size = 0"
    by (simp add: AES_block_size_def del: length_append)
  have "\<exists>ct. cbc_encrypt lib ?k iv (Bytes ?padded) = Inr ct \<and> is_bytes ct
             \<and> cbc_decrypt lib ?k iv ct = Inr ?padded"
    using lib[unfolded cipher_inverts_def, rule_format, where k = "?k" and iv = iv and pt = "?padded"]
      pb pl
    by (simp del: length_append)
  then obtain ct where ct: "cbc_encrypt lib ?k iv (Bytes ?padded) = Inr ct"
      "is_bytes ct" "cbc_decrypt lib ?k iv ct = Inr ?padded"
    by blast
  let ?enc = "b64encode (iv @ ct)"
  have ivct: "\<forall>x\<in>set (iv @ ct). x < 256" using iv(1) ct(2) by (auto simp: is_bytes_iff)
  have e: "encrypt lib key iv (Bytes b) = Inr (Bytes ?enc)"
    by (simp add: encrypt_def AESCipher_key_def key AESCipher_pad_Bytes ct(1))
  have a: "list_all (\<lambda>c. c < 128) ?enc"
    using b64encode_ascii[OF ivct] by (simp add: ascii_iff)
  have d: "b64decode ?enc = Inr (iv @ ct)" using ivct by (rule b64decode_b64encode)
  have u: "AESCipher_unpad (Bytes ?padded) = Inr (Bytes b)"
    using unpad_list_replicate[OF n, of b] by (simp add: AESCipher_unpad_def)
  have "decrypt lib key (Bytes ?enc)
          = (case bytes_decode b of Inl e \<Rightarrow> Inl e | Inr t \<Rightarrow> Inr (Str t))"
    by (simp add: decrypt_def AESCipher_key_def key b64decode_any_def d iv(2) ct(3) u)
  with e a show ?thesis by blast
qed



lemma decrypt_encrypt_undecodable:
  assumes "cipher_inverts lib"
  shows "\<exists>enc. encrypt lib (py_str ''k'') (replicate 16 0) (Bytes [255]) = Inr (Bytes enc)
           \<and> decrypt lib (py_str ''k'') (Bytes enc) = Inl UnicodeDecodeError"
proof -
  have k: "str_encode (py_str ''k'') = Inr [107]" by (simp add: py_str_def utf8_encode_cp_def)
  have iv: "is_bytes (replicate 16 0)" "length (replicate 16 (0::nat)) = AES_block_size"
    by (simp_all add: is_bytes_iff AES_block_size_def)
  have b: "is_bytes [255]" by (simp add: is_bytes_def)
  from decrypt_encrypt_bytes[OF assms iv k b] show ?thesis by auto
qed



subsection \<open>JSON hooks for time values\<close>

lemma rhe_bound: "\<bar>of_int (round_half_even y) - y\<bar> \<le> 1 / 2"
  unfolding round_half_even_def by (auto simp: abs_if) linarith+

lemma rhe_of_int: "round_half_even (of_int k) = k"
  by (simp add: round_half_even_def)

lemma rhe_near:
  assumes "\<bar>y - of_int r\<bar> < 1 / 2"
  shows "round_half_even y = r"
proof -
  have "\<bar>of_int (round_half_even y) - y\<bar> \<le> 1 / 2" by (rule rhe_bound)
  with assms have "\<bar>of_int (round_half_even y) - (of_int r :: real)\<bar> < 1" by linarith
  then have "\<bar>round_half_even y - r\<bar> < 1"
    by (metis of_int_abs of_int_diff of_int_less_1_iff)
  then show ?thesis by linarith
qed

lemma ulp_pos: "0 < x \<Longrightarrow> 0 < ulp x"
  by (simp add: ulp_def)

lemma ulp_le:
  assumes "0 < x" "x < 2 ^ k"
  shows "ulp x \<le> 2 ^ k / 2 ^ 53"
proof (cases "1 \<le> x")
  case True
  have "\<lfloor>x\<rfloor> < 2 ^ k" using assms(2) by (simp add: floor_less_iff)
  then have "nat \<lfloor>x\<rfloor> < 2 ^ k" using True by (simp add: nat_less_iff)
  then have "floorlog 2 (nat \<lfloor>x\<rfloor>) \<le> k" by (intro floorlog_leI) simp_all
  then have "(2::real) ^ floorlog 2 (nat \<lfloor>x\<rfloor>) \<le> 2 ^ k" by simp
  then show ?thesis using True by (simp add: ulp_def divide_right_mono)
next
  case False
  have "(1::real) \<le> 2 ^ k" by simp
  moreover have "(2::real) ^ 53 \<le> 2 ^ (52 + floorlog 2 (nat (\<lceil>1 / x\<rceil> - 1)))"
  proof -
    have "0 < \<lceil>1 / x\<rceil> - 1" using False assms(1) by (simp add: less_ceiling_iff)
    then have "0 < nat (\<lceil>1 / x\<rceil> - 1)" by simp
    then have "1 \<le> floorlog 2 (nat (\<lceil>1 / x\<rceil> - 1))"
      by (simp add: floorlog_def)
    then show ?thesis by (intro power_increasing) simp_all
  qed
  ultimately have "1 / 2 ^ (52 + floorlog 2 (nat (\<lceil>1 / x\<rceil> - 1))) \<le> (2::real) ^ k / 2 ^ 53"
    by (intro frac_le) simp_all
  then show ?thesis using False by (simp add: ulp_def)
qed

lemma scaled_round_error:
  assumes "0 < u"
  shows "\<bar>of_int (round_half_even (x / u)) * u - x\<bar> \<le> u / 2"
proof -
  let ?r = "of_int (round_half_even (x / u)) :: real"
  have "?r * u - x = (?r - x / u) * u" using assms by (simp add: field_simps)
  then have "\<bar>?r * u - x\<bar> = \<bar>?r - x / u\<bar> * u" using assms by (simp add: abs_mult)
  also have "\<dots> \<le> 1 / 2 * u" using assms rhe_bound[of "x / u"] by (intro mult_right_mono) simp_all
  finally show ?thesis by simp
qed

lemma scaled_round_exact:
  assumes "0 < u" "x = of_int k * u"
  shows "of_int (round_half_even (x / u)) * u = x"
  using assms by (simp add: rhe_of_int)

lemma round_double_error:
  assumes "0 < x"
  shows "\<bar>round_double x - x\<bar> \<le> ulp x / 2"
  using scaled_round_error[OF ulp_pos[OF assms], of x] assms by (simp add: round_double_def)

lemma pow2_split:
  fixes q :: int and a fl :: nat
  assumes "fl \<le> a"
  shows "(of_int q :: real) = of_int (q * 2 ^ (a - fl)) * (2 ^ fl / 2 ^ a)"
proof -
  have "(2::real) ^ a = 2 ^ (a - fl) * 2 ^ fl" using assms by (simp flip: power_add)
  then show ?thesis by simp
qed

lemma round_double_minus: "round_double (- x) = - round_double x"
  by (simp add: round_double_def)

lemma round_double_int:
  assumes "1 \<le> q" "q < 2 ^ 53"
  shows "round_double (of_int q) = of_int q"
proof -
  let ?x = "of_int q :: real"
  let ?fl = "floorlog 2 (nat q)"
  have "nat q < 2 ^ 53" using assms by (simp add: nat_less_iff)
  then have fl: "?fl \<le> 53" by (intro floorlog_leI) simp_all
  have u: "ulp ?x = 2 ^ ?fl / 2 ^ 53" using assms(1) by (simp add: ulp_def)
  have x: "?x = of_int (q * 2 ^ (53 - ?fl)) * ulp ?x" unfolding u using fl by (rule pow2_split)
  have "0 < ?x" using assms(1) by simp
  then have "0 < ulp ?x" by (rule ulp_pos)
  from scaled_round_exact[OF this x] \<open>0 < ?x\<close> show ?thesis by (simp add: round_double_def)
qed

lemma round_double_zero: "round_double 0 = 0"
  by (simp add: round_double_def)

lemma seconds_of_whole:
  "seconds_to_microseconds (of_int q) = q * 1000000"
  by (simp add: seconds_to_microseconds_def modf_int_def round_double_zero rhe_of_int[of 0, simplified])

lemma seconds_total_pos:
  assumes "0 < n" "n < 2 ^ 33 * 1000000"
  shows "seconds_to_microseconds (total_seconds n) = n"
proof -
  define q where "q = n div 1000000"
  define r where "r = n mod 1000000"
  have n: "n = q * 1000000 + r" and r: "0 \<le> r" "r < 1000000"
    by (simp_all add: q_def r_def)
  have q0: "0 \<le> q" using assms(1) by (simp add: q_def pos_imp_zdiv_nonneg_iff)
  have q33: "q < 2 ^ 33" using assms(2) n r(1) by simp
  define x :: real where "x = of_int n / 1000000"
  have xq: "x = of_int q + of_int r / 1000000" by (simp add: x_def n)
  show ?thesis
  proof (cases "r = 0")
    case True
    then have q1: "1 \<le> q" using assms(1) n by simp
    have "total_seconds n = round_double (of_int q)"
      using True by (simp add: total_seconds_def n)
    also have "\<dots> = of_int q" using q1 q33 by (intro round_double_int) simp_all
    finally show ?thesis using True by (simp add: seconds_of_whole n)
  next
    case False
    then have r1: "1 \<le> r" using r(1) by simp
    have xpos: "0 < x" using assms(1) by (simp add: x_def)
    have "of_int n < (2 ^ 33 * 1000000 :: real)" using assms(2) by (metis of_int_less_iff of_int_numeral of_int_mult of_int_power)
    then have x33: "x < 2 ^ 33" by (simp add: x_def)
    define f where "f = round_double x"
    have tf: "total_seconds n = f" by (simp add: f_def total_seconds_def x_def)
    have "ulp x \<le> 2 ^ 33 / 2 ^ 53" using xpos x33 by (rule ulp_le)
    with round_double_error[OF xpos] have err: "\<bar>f - x\<bar> \<le> 1 / 1048576 / 2"
      by (simp add: f_def)
    have rr: "(1::real) \<le> of_int r" "of_int r \<le> (999999::real)" using r1 r(2) by simp_all
    have fq: "of_int q < f" "f < of_int q + 1" using err rr unfolding xq by linarith+
    have "(0::real) \<le> of_int q" using q0 by simp
    then have f0: "0 \<le> f" using fq(1) by linarith
    have fl: "\<lfloor>f\<rfloor> = q" using fq by (simp add: floor_unique)
    have mi: "modf_int f = q" using f0 fl by (simp add: modf_int_def)
    define y where "y = 1000000 * (f - of_int q)"
    have ypos: "0 < y" using fq(1) by (simp add: y_def)
    have y20: "y < 2 ^ 20" using fq(2) by (simp add: y_def)
    have yr: "\<bar>y - of_int r\<bar> \<le> 1000000 * (1 / 1048576 / 2)"
    proof -
      have e: "y - of_int r = 1000000 * (f - x)" unfolding y_def xq by simp
      show ?thesis unfolding e abs_mult using err by simp
    qed
    have "ulp y \<le> 2 ^ 20 / 2 ^ 53" using ypos y20 by (rule ulp_le)
    with round_double_error[OF ypos] have erry: "\<bar>round_double y - y\<bar> \<le> 1 / 8589934592 / 2"
      by simp
    have "\<bar>round_double y - of_int r\<bar> < 1 / 2" using yr erry by linarith
    then have "round_half_even (round_double y) = r" by (rule rhe_near)
    then have s: "seconds_to_microseconds f = q * 1000000 + r"
      by (simp add: seconds_to_microseconds_def mi y_def Let_def)
    show ?thesis unfolding tf s by (simp add: n)
  qed
qed

lemma rhe_minus: "round_half_even (- y) = - round_half_even y"
proof (cases "y \<in> \<int>")
  case True
  then obtain k where "y = of_int k" by (auto elim: Ints_cases)
  then have "- y = of_int (- k)" by simp
  then show ?thesis using rhe_of_int[of "- k"] rhe_of_int[of k] \<open>y = of_int k\<close> by simp
next
  case False
  then have ne: "y \<noteq> of_int \<lfloor>y\<rfloor>" by (metis Ints_of_int)
  then have fl: "\<lfloor>- y\<rfloor> = - \<lfloor>y\<rfloor> - 1"
    by (simp add: floor_minus ceiling_altdef)
  have "of_int \<lfloor>y\<rfloor> \<le> y" by simp
  with ne have lt: "of_int \<lfloor>y\<rfloor> < y" by linarith
  show ?thesis
    unfolding round_half_even_def fl using lt
    by (auto simp: not_less)
qed

lemma modf_int_minus: "modf_int (- f) = - modf_int f"
  by (auto simp: modf_int_def floor_minus ceiling_minus)

lemma seconds_minus: "seconds_to_microseconds (- f) = - seconds_to_microseconds f"
proof -
  have "1000000 * (- f - of_int (- modf_int f)) = - (1000000 * (f - of_int (modf_int f)))"
    by simp
  then show ?thesis
    unfolding seconds_to_microseconds_def Let_def modf_int_minus
    by (simp only: round_double_minus rhe_minus)
qed

lemma total_seconds_minus: "total_seconds (- n) = - total_seconds n"
  by (simp add: total_seconds_def round_double_minus)

lemma seconds_total:
  assumes "\<bar>n\<bar> < 2 ^ 33 * 1000000"
  shows "seconds_to_microseconds (total_seconds n) = n"
proof -
  consider "n = 0" | "0 < n" | "n < 0" by linarith
  then show ?thesis
  proof cases
    case 1
    then show ?thesis
      using seconds_of_whole[of 0] by (simp add: total_seconds_def round_double_zero)
  next
    case 2
    with assms show ?thesis by (intro seconds_total_pos) simp_all
  next
    case 3
    with assms have "seconds_to_microseconds (total_seconds (- n)) = - n"
      by (intro seconds_total_pos) simp_all
    then show ?thesis by (simp add: total_seconds_minus seconds_minus)
  qed
qed

lemma total_seconds_lost:
  "total_seconds 17280000000000001 = 17280000000"
proof -
  have b: "floorlog 2 17280000000 = 35"
  proof (rule antisym)
    show "floorlog 2 17280000000 \<le> 35" by (intro floorlog_leI) simp_all
    show "35 \<le> floorlog 2 17280000000" by (intro floorlog_geI) simp_all
  qed
  have fl: "\<lfloor>17280000000000001 / 1000000 :: real\<rfloor> = 17280000000" by (simp add: floor_eq_iff)
  have u: "ulp (17280000000000001 / 1000000) = 1 / 262144"
    by (simp add: ulp_def fl b)
  have "round_half_even (17280000000000001 / 1000000 / (1 / 262144)) = 4529848320000000"
    by (intro rhe_near) simp
  then show ?thesis
    by (simp add: total_seconds_def round_double_def u)
qed

lemma json_dumps_default:
  "encode_json isoformat obj = Inr v \<Longrightarrow> json_dumps isoformat obj = json_dumps isoformat v"
  by (cases obj) auto

lemma timedelta_of_total_seconds:
  assumes "\<bar>us\<bar> < 2 ^ 33 * 1000000"
  shows "timedelta_of (PyFloat (total_seconds us)) = Inr (PyTimedelta us)"
proof -
  have "timedelta_min \<le> us \<and> us \<le> timedelta_max"
    using assms by (auto simp: timedelta_min_def timedelta_max_def abs_less_iff)
  then show ?thesis
    by (simp add: timedelta_of_def seconds_total[OF assms] timedelta_in_range_def)
qed

text \<open>
  C10, as stated, at the timedelta of 200000 days and one microsecond: its
  \<open>total_seconds()\<close> is the double 17280000000.0, the microsecond is below half the
  distance between the doubles of that size, and \<open>json.loads(json.dumps(t))\<close> is the
  timedelta of 200000 days.
\<close>

theorem timedelta_microsecond_counterexample:
  "json_dumps (\<lambda>d :: unit. []) (PyTimedelta 17280000000000001)
     = Inr (JObject [(''__timedelta__'', JFloat 17280000000)])
   \<and> json_loads (\<lambda>s. Inl ValueError) (\<lambda>dct. Inr (PyDict dct))
        (JObject [(''__timedelta__'', JFloat 17280000000)])
     = Inr (PyTimedelta 17280000000000000 :: unit pyval)"
proof -
  have "seconds_to_microseconds 17280000000 = 17280000000 * 1000000"
    using seconds_of_whole[of 17280000000] by simp
  then show ?thesis
    by (simp add: total_seconds_lost default_object_hook_def timedelta_of_def
        timedelta_in_range_def timedelta_min_def timedelta_max_def)
qed

text \<open>
  C10, amended. With the hooks of \<open>patch_json\<close>, a datetime \<open>d\<close> is written as
  \<open>{'__datetime__': d.isoformat()}\<close> and read back as \<open>d\<close> whenever
  \<open>dateutil.parser.parse\<close> recovers \<open>d\<close> from \<open>d.isoformat()\<close>; a timedelta \<open>t\<close>
  is written as \<open>{'__timedelta__': t.total_seconds()}\<close> and read back as \<open>t\<close>
  whenever \<open>t\<close> is shorter than \<open>2**33\<close> seconds (about 272 years) in either
  direction.
\<close>

theorem json_time_roundtrip:
  "(parse (isoformat d) = Inr d \<longrightarrow>
      json_dumps isoformat (PyDatetime d) = Inr (JObject [(''__datetime__'', JString (isoformat d))])
      \<and> json_loads parse other_hooks (JObject [(''__datetime__'', JString (isoformat d))])
          = Inr (PyDatetime d))
   \<and> (\<bar>us\<bar> < 2 ^ 33 * 1000000 \<longrightarrow>
      json_dumps isoformat (PyTimedelta us)
        = Inr (JObject [(''__timedelta__'', JFloat (total_seconds us))])
      \<and> json_loads parse other_hooks (JObject [(''__timedelta__'', JFloat (total_seconds us))])
          = Inr (PyTimedelta us))"
  by (simp add: default_object_hook_def timedelta_of_total_seconds)

theorem json_time_roundtrip_witness:
  "json_loads Inr (\<lambda>dct. Inr (PyDict dct))
       (JObject [(''__datetime__'', JString ''2018-07-01T12:00:00'')])
     = Inr (PyDatetime ''2018-07-01T12:00:00'')
   \<and> json_loads Inr (\<lambda>dct. Inr (PyDict dct))
       (JObject [(''__timedelta__'', JFloat (total_seconds 1500000))])
     = Inr (PyTimedelta 1500000 :: string pyval)"
  using json_time_roundtrip[where parse = Inr and isoformat = "\<lambda>d. d"
      and d = "''2018-07-01T12:00:00''" and us = 1500000
      and other_hooks = "\<lambda>dct. Inr (PyDict dct)"]
  by simp

end
